theory Spec2Isabelle
  imports Main
begin

section \<open>Bytes, byte order and C integer conversions\<close>

text \<open>
  A \<open>WvBuf\<close> holds C \<open>char\<close>s; a byte is a \<^typ>\<open>char\<close> (eight bits), a run of
  bytes a \<^typ>\<open>string\<close>. C integer values are mathematical integers; the width of
  their type is made explicit wherever the code depends on it.
\<close>

type_synonym byte = char

datatype endian = LittleEndian | BigEndian

text \<open>The \<open>k\<close> low-order bytes of \<open>v\<close> (two's complement), least significant first.\<close>

fun le_bytes :: "nat \<Rightarrow> int \<Rightarrow> byte list" where
  "le_bytes 0 v = []"
| "le_bytes (Suc k) v = char_of (v mod 256) # le_bytes k (v div 256)"

text \<open>The unsigned number a run of bytes denotes, least significant byte first.\<close>

fun le_val :: "byte list \<Rightarrow> int" where
  "le_val [] = 0"
| "le_val (b # bs) = of_char b + 256 * le_val bs"

text \<open>
  The object representation of a \<open>w\<close>-byte integer in the memory of a host with byte
  order \<open>e\<close>: what \<open>buf.put(&t, w)\<close> copies.
\<close>

definition object_bytes :: "endian \<Rightarrow> nat \<Rightarrow> int \<Rightarrow> byte list" where
  "object_bytes e w v =
     (case e of LittleEndian \<Rightarrow> le_bytes w v | BigEndian \<Rightarrow> rev (le_bytes w v))"

definition load_unsigned :: "endian \<Rightarrow> byte list \<Rightarrow> int" where
  "load_unsigned e m = (case e of LittleEndian \<Rightarrow> le_val m | BigEndian \<Rightarrow> le_val (rev m))"

text \<open>Conversion of an integer to an unsigned, respectively signed, type of \<open>w\<close> bytes.\<close>

definition to_unsigned :: "nat \<Rightarrow> int \<Rightarrow> int" where
  "to_unsigned w v = v mod 2 ^ (8 * w)"

definition to_signed :: "nat \<Rightarrow> int \<Rightarrow> int" where
  "to_signed w v = (v + 2 ^ (8 * w - 1)) mod 2 ^ (8 * w) - 2 ^ (8 * w - 1)"

text \<open>
  Reading memory through an \<open>intN_t *\<close>, as \<open>*(int32_t *)buf.get(4)\<close> does: the bytes
  in host order, as a signed value.
\<close>

definition load_signed :: "endian \<Rightarrow> byte list \<Rightarrow> int" where
  "load_signed e m = to_signed (length m) (load_unsigned e m)"

text \<open>
  The platform's \<open><netinet/in.h>\<close> conversions between host and network byte order
  are not part of the repository; they are determined by the byte order of the host,
  which is a parameter here. The argument is converted to \<open>uint32_t\<close>
  (\<open>uint16_t\<close>); on a big-endian host that is all, on a little-endian host the bytes
  are swapped.
\<close>

definition bswap :: "nat \<Rightarrow> int \<Rightarrow> int" where
  "bswap w v = le_val (rev (le_bytes w v))"

definition htonl :: "endian \<Rightarrow> int \<Rightarrow> int" where
  "htonl e x = (case e of BigEndian \<Rightarrow> to_unsigned 4 x | LittleEndian \<Rightarrow> bswap 4 x)"

definition htons :: "endian \<Rightarrow> int \<Rightarrow> int" where
  "htons e x = (case e of BigEndian \<Rightarrow> to_unsigned 2 x | LittleEndian \<Rightarrow> bswap 2 x)"

definition ntohl :: "endian \<Rightarrow> int \<Rightarrow> int" where
  "ntohl e x = htonl e x"

definition ntohs :: "endian \<Rightarrow> int \<Rightarrow> int" where
  "ntohs e x = htons e x"

text \<open>
  The wire format the specification asks for: the big-endian representation of \<open>v\<close>
  on \<open>w\<close> bytes, most significant byte first. It is written from the
  specification's words, independently of the code's way of producing bytes.
\<close>

definition big_endian :: "nat \<Rightarrow> int \<Rightarrow> byte list" where
  "big_endian w v = map (\<lambda>i. char_of ((v div 256 ^ (w - 1 - i)) mod 256)) [0..<w]"

definition big_endian_value :: "byte list \<Rightarrow> int" where
  "big_endian_value m = foldl (\<lambda>acc b. 256 * acc + of_char b) 0 m"


section \<open>The scalar types of the serializer\<close>

text \<open>
  The integer types \<open>_wv_serialize\<close> is overloaded for. What \<open>sizeof\<close> gives for
  \<open>long\<close>, whether plain \<open>char\<close> is signed and which type \<open>size_t\<close> names depend on
  the platform; \<open>long long\<close> has 8 bytes, \<open>int\<close> 4 and \<open>short\<close> 2 on all of them.
\<close>

datatype ctype =
    TLongLong | TULongLong | TLong | TULong | TInt | TUInt | TShort | TUShort
  | TChar | TSChar | TUChar

record platform =
  host_endian :: endian
  sizeof_long :: nat
  char_signed :: bool
  size_type :: ctype

fun sizeof :: "platform \<Rightarrow> ctype \<Rightarrow> nat" where
  "sizeof p TLongLong = 8"
| "sizeof p TULongLong = 8"
| "sizeof p TLong = sizeof_long p"
| "sizeof p TULong = sizeof_long p"
| "sizeof p TInt = 4"
| "sizeof p TUInt = 4"
| "sizeof p TShort = 2"
| "sizeof p TUShort = 2"
| "sizeof p TChar = 1"
| "sizeof p TSChar = 1"
| "sizeof p TUChar = 1"

fun is_signed :: "platform \<Rightarrow> ctype \<Rightarrow> bool" where
  "is_signed p TLongLong = True"
| "is_signed p TULongLong = False"
| "is_signed p TLong = True"
| "is_signed p TULong = False"
| "is_signed p TInt = True"
| "is_signed p TUInt = False"
| "is_signed p TShort = True"
| "is_signed p TUShort = False"
| "is_signed p TChar = char_signed p"
| "is_signed p TSChar = True"
| "is_signed p TUChar = False"

text \<open>The values of a type, from its minimum to its maximum.\<close>

definition representable :: "platform \<Rightarrow> ctype \<Rightarrow> int \<Rightarrow> bool" where
  "representable p T v =
     (if is_signed p T
      then - (2 ^ (8 * sizeof p T - 1)) \<le> v \<and> v < 2 ^ (8 * sizeof p T - 1)
      else 0 \<le> v \<and> v < 2 ^ (8 * sizeof p T))"

text \<open>The cast \<open>(T) v\<close>.\<close>

definition cast :: "platform \<Rightarrow> ctype \<Rightarrow> int \<Rightarrow> int" where
  "cast p T v =
     (if is_signed p T then to_signed (sizeof p T) v else to_unsigned (sizeof p T) v)"

text \<open>A platform the library is built for: a 32-bit or 64-bit \<open>long\<close> and \<open>size_t\<close>.\<close>

definition platform_ok :: "platform \<Rightarrow> bool" where
  "platform_ok p =
     ((sizeof_long p = 4 \<or> sizeof_long p = 8) \<and>
      (size_type p = TUInt \<or> size_type p = TULong \<or> size_type p = TULongLong))"

definition x86_64 :: platform where
  "x86_64 = \<lparr>host_endian = LittleEndian, sizeof_long = 8, char_signed = True,
             size_type = TULong\<rparr>"

definition ppc32 :: platform where
  "ppc32 = \<lparr>host_endian = BigEndian, sizeof_long = 4, char_signed = False,
            size_type = TUInt\<rparr>"


section \<open>The buffer\<close>

text \<open>
  Modelled from the spec: \<open>WvBuf\<close> (\<open>wvbuf.h\<close>) is not among the sources. The
  specification describes a byte sequence with a read cursor: \<open>put\<close> appends,
  \<open>get(n)\<close> consumes and returns exactly \<open>n\<close> bytes and requires that many to be
  unread, \<open>peek(offset, n)\<close> is a read-only view, \<open>merge(other, n)\<close> moves \<open>n\<close>
  bytes from another buffer's unread region, and \<open>used()\<close> (the specification's
  \<open>avail()\<close>) counts the unread bytes. A buffer is the list of its unread bytes,
  oldest first; every operation returns the buffers as it leaves them, and a breach
  of the contract of \<open>get\<close>, \<open>peek\<close> or \<open>merge\<close> is an error value.
\<close>

type_synonym wvbuf = "byte list"

datatype error = AssertFailed | ContractBreach

definition used :: "wvbuf \<Rightarrow> nat" where
  "used buf = length buf"

definition put :: "wvbuf \<Rightarrow> byte list \<Rightarrow> wvbuf" where
  "put buf m = buf @ m"

definition putstr :: "wvbuf \<Rightarrow> string \<Rightarrow> wvbuf" where
  "putstr buf s = buf @ s"

definition get :: "wvbuf \<Rightarrow> nat \<Rightarrow> error + (byte list \<times> wvbuf)" where
  "get buf n = (if n \<le> used buf then Inr (take n buf, drop n buf) else Inl ContractBreach)"

definition peek :: "wvbuf \<Rightarrow> nat \<Rightarrow> nat \<Rightarrow> error + (byte list \<times> wvbuf)" where
  "peek buf offset n =
     (if offset + n \<le> used buf then Inr (take n (drop offset buf), buf)
      else Inl ContractBreach)"

definition merge :: "wvbuf \<Rightarrow> wvbuf \<Rightarrow> nat \<Rightarrow> error + (wvbuf \<times> wvbuf)" where
  "merge dst src n =
     (if n \<le> used src then Inr (dst @ take n src, drop n src) else Inl ContractBreach)"


section \<open>Serializing and deserializing scalars\<close>

text \<open>
  \<open>wv_serialize_scalar<T>(buf, t)\<close>. The 8-byte and 1-byte branches copy the object
  itself; the 4-byte branch copies an \<open>int32_t\<close> holding \<open>htonl(t)\<close>; the 2-byte
  branch copies the first two bytes of an \<open>int32_t\<close> holding \<open>htons(t)\<close>.
\<close>

definition wv_serialize_scalar :: "platform \<Rightarrow> ctype \<Rightarrow> wvbuf \<Rightarrow> int \<Rightarrow> error + wvbuf" where
  "wv_serialize_scalar p T buf t =
     (if sizeof p T = 8 then Inr (put buf (object_bytes (host_endian p) 8 t))
      else if sizeof p T = 4 then
        (let i = htonl (host_endian p) t
         in Inr (put buf (object_bytes (host_endian p) 4 i)))
      else if sizeof p T = 2 then
        (let i = htons (host_endian p) t
         in Inr (put buf (take 2 (object_bytes (host_endian p) 4 i))))
      else if sizeof p T = 1 then Inr (put buf (object_bytes (host_endian p) 1 t))
      else Inl AssertFailed)"

text \<open>
  \<open>wv_deserialize_scalar<T>(buf)\<close>: the value and the buffer after the call. The
  test on \<open>used()\<close> comes first and returns 0 without touching the buffer.
\<close>

definition wv_deserialize_scalar :: "platform \<Rightarrow> ctype \<Rightarrow> wvbuf \<Rightarrow> error + (int \<times> wvbuf)" where
  "wv_deserialize_scalar p T buf =
     (if used buf < sizeof p T then Inr (0, buf)
      else if sizeof p T = 8 then
        (case get buf 8 of
           Inl err \<Rightarrow> Inl err
         | Inr (m, buf') \<Rightarrow> Inr (cast p T (load_signed (host_endian p) m), buf'))
      else if sizeof p T = 4 then
        (case get buf 4 of
           Inl err \<Rightarrow> Inl err
         | Inr (m, buf') \<Rightarrow>
             Inr (cast p T (ntohl (host_endian p) (load_signed (host_endian p) m)), buf'))
      else if sizeof p T = 2 then
        (case get buf 2 of
           Inl err \<Rightarrow> Inl err
         | Inr (m, buf') \<Rightarrow>
             Inr (cast p T (ntohs (host_endian p) (load_signed (host_endian p) m)), buf'))
      else if sizeof p T = 1 then
        (case get buf 1 of
           Inl err \<Rightarrow> Inl err
         | Inr (m, buf') \<Rightarrow> Inr (cast p T (load_signed (host_endian p) m), buf'))
      else Inl AssertFailed)"


section \<open>Serializing and deserializing text\<close>

text \<open>
  A \<open>WvString\<close> is either null or a C string; a C string is given by its content,
  the bytes before its terminating nul, so a well-formed text has no zero byte.
\<close>

type_synonym wvstring = "string option"

definition isnull :: "wvstring \<Rightarrow> bool" where
  "isnull s = (s = None)"

fun cstr :: "wvstring \<Rightarrow> string" where
  "cstr None = []"
| "cstr (Some cs) = cs"

definition wf_text :: "wvstring \<Rightarrow> bool" where
  "wf_text s = (CHR 0x00 \<notin> set (cstr s))"

text \<open>\<open>_wv_serialize(WvBuf &buf, WvStringParm s)\<close>.\<close>

definition wv_serialize_WvString :: "wvbuf \<Rightarrow> wvstring \<Rightarrow> wvbuf" where
  "wv_serialize_WvString buf s =
     (let buf1 = (if \<not> isnull s then putstr buf (cstr s) else buf)
      in put buf1 [CHR 0x00])"

text \<open>
  Modelled from the spec: \<open>_wv_deserialize<WvString>\<close> is only declared
  (\<open>extern\<close>) in the sources; its body is missing. Its documentation there says it
  stops at, and includes, the terminating nul. The bytes before the first zero byte
  are the text, and they and the zero byte are consumed. When the buffer holds no
  zero byte the text is incomplete: following the specification's underflow policy
  the placeholder, a null text, is returned and nothing is consumed.
\<close>

definition wv_deserialize_WvString :: "wvbuf \<Rightarrow> wvstring \<times> wvbuf" where
  "wv_deserialize_WvString buf =
     (if CHR 0x00 \<in> set buf
      then (Some (takeWhile (\<lambda>c. c \<noteq> CHR 0x00) buf),
            drop 1 (dropWhile (\<lambda>c. c \<noteq> CHR 0x00) buf))
      else (None, buf))"


section \<open>Serializing and deserializing nested buffers\<close>

text \<open>
  \<open>_wv_serialize(WvBuf &buf, const WvBuf &inbuf)\<close>: the number of unread bytes of
  \<open>inbuf\<close> as a \<open>size_t\<close>, then the bytes themselves, read with \<open>peek\<close>. Both
  buffers after the call are returned.
\<close>

definition wv_serialize_WvBuf :: "platform \<Rightarrow> wvbuf \<Rightarrow> wvbuf \<Rightarrow> error + (wvbuf \<times> wvbuf)" where
  "wv_serialize_WvBuf p buf inbuf =
     (case wv_serialize_scalar p (size_type p) buf (int (used inbuf)) of
        Inl err \<Rightarrow> Inl err
      | Inr buf1 \<Rightarrow>
          (case peek inbuf 0 (used inbuf) of
             Inl err \<Rightarrow> Inl err
           | Inr (m, inbuf') \<Rightarrow> Inr (put buf1 m, inbuf')))"

text \<open>
  \<open>WvDeserialize<WvBuf *>::go\<close>: the new buffer (a \<open>WvInPlaceBuf\<close> over a fresh
  array of \<open>len\<close> bytes, none of them used) and the source buffer after the call.
\<close>

definition WvDeserialize_WvBuf_go :: "platform \<Rightarrow> wvbuf \<Rightarrow> error + (wvbuf \<times> wvbuf)" where
  "WvDeserialize_WvBuf_go p buf =
     (case wv_deserialize_scalar p (size_type p) buf of
        Inl err \<Rightarrow> Inl err
      | Inr (len, buf1) \<Rightarrow> merge [] buf1 (nat len))"


section \<open>Serializing and deserializing lists\<close>

text \<open>
  \<open>_wv_serialize(WvBuf &buf, const WvList<T> &list)\<close>, for an element type whose
  serializer is \<open>ser\<close>: the count as a \<open>size_t\<close>, then the elements in the order
  of the iterator.
\<close>

fun serialize_elements :: "(wvbuf \<Rightarrow> 'a \<Rightarrow> error + wvbuf) \<Rightarrow> wvbuf \<Rightarrow> 'a list \<Rightarrow> error + wvbuf" where
  "serialize_elements ser buf [] = Inr buf"
| "serialize_elements ser buf (x # xs) =
     (case ser buf x of
        Inl err \<Rightarrow> Inl err
      | Inr buf' \<Rightarrow> serialize_elements ser buf' xs)"

definition wv_serialize_WvList ::
  "platform \<Rightarrow> (wvbuf \<Rightarrow> 'a \<Rightarrow> error + wvbuf) \<Rightarrow> wvbuf \<Rightarrow> 'a list \<Rightarrow> error + wvbuf" where
  "wv_serialize_WvList p ser buf list =
     (case wv_serialize_scalar p (size_type p) buf (int (length list)) of
        Inl err \<Rightarrow> Inl err
      | Inr buf1 \<Rightarrow> serialize_elements ser buf1 list)"

text \<open>
  \<open>WvDeserialize<WvList<T> *>::go\<close>, for an element type whose deserializer is
  \<open>deser\<close>. The loop runs \<open>count\<close> from 0 up to \<open>nelems\<close> and appends each element
  to the new list.
\<close>

function deserialize_loop ::
  "(wvbuf \<Rightarrow> error + ('a \<times> wvbuf)) \<Rightarrow> nat \<Rightarrow> nat \<Rightarrow> 'a list \<Rightarrow> wvbuf
     \<Rightarrow> error + ('a list \<times> wvbuf)" where
  "deserialize_loop deser count nelems list buf =
     (if count < nelems then
        (case deser buf of
           Inl err \<Rightarrow> Inl err
         | Inr (t, buf') \<Rightarrow> deserialize_loop deser (Suc count) nelems (list @ [t]) buf')
      else Inr (list, buf))"
  by pat_completeness auto
termination
  by (relation "measure (\<lambda>(deser, count, nelems, list, buf). nelems - count)") auto

definition WvDeserialize_WvList_go ::
  "platform \<Rightarrow> (wvbuf \<Rightarrow> error + ('a \<times> wvbuf)) \<Rightarrow> wvbuf \<Rightarrow> error + ('a list \<times> wvbuf)" where
  "WvDeserialize_WvList_go p deser buf =
     (case wv_deserialize_scalar p (size_type p) buf of
        Inl err \<Rightarrow> Inl err
      | Inr (nelems, buf1) \<Rightarrow> deserialize_loop deser 0 (nat nelems) [] buf1)"


section \<open>The escape codec\<close>

text \<open>
  Modelled from the spec: \<open>WvBackslashEncoder\<close>, \<open>WvBackslashDecoder\<close> and
  \<open>WvEncoderStream\<close> are not among the sources; only their test is. The
  specification's rule for the encoder: every byte is copied unchanged, except the
  three bytes newline, backspace and backslash, for which a backslash and one
  mnemonic character are emitted. The mnemonics are those of the test's expected
  strings: \<open>n\<close>, \<open>b\<close> and the backslash itself.
\<close>

definition newline :: byte where "newline = CHR 0x0A"
definition backspace :: byte where "backspace = CHR 0x08"
definition backslash :: byte where "backslash = CHR 0x5C"

definition must_escape :: "byte \<Rightarrow> bool" where
  "must_escape c = (c = newline \<or> c = backspace \<or> c = backslash)"

definition mnemonic :: "byte \<Rightarrow> byte" where
  "mnemonic c =
     (if c = newline then CHR ''n'' else if c = backspace then CHR ''b'' else backslash)"

text \<open>The encoder keeps nothing between calls: its state is the one-element type.\<close>

fun backslash_encode :: "unit \<Rightarrow> string \<Rightarrow> unit \<times> string" where
  "backslash_encode st [] = (st, [])"
| "backslash_encode st (c # cs) =
     (let (st', out) = backslash_encode st cs
      in (st', if must_escape c then backslash # mnemonic c # out else c # out))"

definition backslash_encode_flush :: "unit \<Rightarrow> unit \<times> string" where
  "backslash_encode_flush st = (st, [])"

text \<open>
  Modelled from the spec: the decoder is the two-state machine of the
  specification. A byte other than a backslash is copied; a backslash is retained and
  nothing is emitted; the byte after a retained backslash is translated through the
  mnemonic table, or, when it is no mnemonic, emitted after a literal backslash.
  \<open>flush\<close> emits a retained backslash literally.
\<close>

datatype decoder_state = PASSTHROUGH | PENDING_ESCAPE

definition unescape :: "byte \<Rightarrow> string" where
  "unescape c =
     (if c = CHR ''n'' then [newline]
      else if c = CHR ''b'' then [backspace]
      else if c = backslash then [backslash]
      else [backslash, c])"

fun decode_byte :: "decoder_state \<Rightarrow> byte \<Rightarrow> decoder_state \<times> string" where
  "decode_byte PASSTHROUGH c =
     (if c = backslash then (PENDING_ESCAPE, []) else (PASSTHROUGH, [c]))"
| "decode_byte PENDING_ESCAPE c = (PASSTHROUGH, unescape c)"

fun backslash_decode :: "decoder_state \<Rightarrow> string \<Rightarrow> decoder_state \<times> string" where
  "backslash_decode st [] = (st, [])"
| "backslash_decode st (c # cs) =
     (let (st1, out1) = decode_byte st c;
          (st2, out2) = backslash_decode st1 cs
      in (st2, out1 @ out2))"

fun backslash_decode_flush :: "decoder_state \<Rightarrow> decoder_state \<times> string" where
  "backslash_decode_flush PASSTHROUGH = (PASSTHROUGH, [])"
| "backslash_decode_flush PENDING_ESCAPE = (PASSTHROUGH, [backslash])"

text \<open>
  Modelled from the spec: the stream adapter with \<open>auto_flush\<close> set, as the test
  sets it. Each \<open>write\<close> pushes one chunk through the encoder and flushes; what
  reaches the underlying stream after each write is collected, one result a chunk,
  as the test's loop reads it.
\<close>

fun stream_writes ::
  "('s \<Rightarrow> string \<Rightarrow> 's \<times> string) \<Rightarrow> ('s \<Rightarrow> 's \<times> string) \<Rightarrow> 's \<Rightarrow> string list
     \<Rightarrow> string list" where
  "stream_writes enc fl st [] = []"
| "stream_writes enc fl st (chunk # chunks) =
     (let (st1, out1) = enc st chunk;
          (st2, out2) = fl st1
      in (out1 @ out2) # stream_writes enc fl st2 chunks)"

text \<open>The five chunks of the test and their escaped forms, from the test's arrays.\<close>

definition test_plain :: "string list" where
  "test_plain =
     [''encode this!'' @ [newline], ''baroofey'' @ [newline], [backslash],
      [newline] @ ''magoo'' @ [backspace], '' '']"

definition test_escaped :: "string list" where
  "test_escaped =
     [''encode this!'' @ [backslash, CHR ''n''], ''baroofey'' @ [backslash, CHR ''n''],
      [backslash, backslash],
      [backslash, CHR ''n''] @ ''magoo'' @ [backslash, CHR ''b''], '' '']"


section \<open>Bytes and numbers\<close>

lemma length_le_bytes [simp]: "length (le_bytes k v) = k"
  by (induction k arbitrary: v) simp_all

lemma of_char_int_bounds: "0 \<le> (of_char b :: int)" "(of_char b :: int) < 256"
proof -
  have "0 \<le> (of_char b :: int) mod 256" by (rule pos_mod_sign) simp
  then show "0 \<le> (of_char b :: int)" by (simp only: of_char_mod_256)
  have "(of_char b :: int) mod 256 < 256" by (rule pos_mod_bound) simp
  then show "(of_char b :: int) < 256" by (simp only: of_char_mod_256)
qed

lemma le_val_nonneg: "0 \<le> le_val m"
  using of_char_int_bounds(1) by (induction m) (simp_all add: add_nonneg_nonneg)

lemma le_val_less: "le_val m < 256 ^ length m"
proof (induction m)
  case Nil
  show ?case by simp
next
  case (Cons b m)
  have "(of_char b :: int) < 256" by (rule of_char_int_bounds)
  with Cons show ?case by simp
qed

lemma le_val_le_bytes: "le_val (le_bytes k v) = v mod 256 ^ k"
proof (induction k arbitrary: v)
  case 0
  show ?case by simp
next
  case (Suc k)
  have "v mod (256 * 256 ^ k) = 256 * (v div 256 mod 256 ^ k) + v mod 256"
    by (simp add: zmod_zmult2_eq)
  with Suc show ?case by simp
qed

lemma le_bytes_le_val: "le_bytes (length m) (le_val m) = m"
proof (induction m)
  case Nil
  show ?case by simp
next
  case (Cons b m)
  note b = of_char_int_bounds [of b]
  have d: "(of_char b + 256 * le_val m) div 256 = le_val m" using b by simp
  have r: "(of_char b + 256 * le_val m) mod 256 = (of_char b :: int)" using b by simp
  show ?case
    by (simp only: le_val.simps length_Cons le_bytes.simps d r char_of_char Cons)
qed

lemma le_bytes_mod: "le_bytes k (v mod 256 ^ k) = le_bytes k v"
  by (metis le_bytes_le_val le_val_le_bytes length_le_bytes)

lemma take_le_bytes: "take k (le_bytes (k + j) v) = le_bytes k v"
  by (induction k arbitrary: v) simp_all

lemma le_bytes_snoc: "le_bytes (Suc k) v = le_bytes k v @ [char_of ((v div 256 ^ k) mod 256)]"
proof (induction k arbitrary: v)
  case 0
  show ?case by simp
next
  case (Suc k)
  have "v div 256 div 256 ^ k = v div (256 * 256 ^ k)"
    by (simp add: zdiv_zmult2_eq)
  with Suc [of "v div 256"] show ?case by simp
qed

lemma big_endian_rev_le_bytes: "big_endian w v = rev (le_bytes w v)"
proof (induction w)
  case 0
  show ?case by (simp add: big_endian_def)
next
  case (Suc w)
  have "big_endian (Suc w) v = char_of ((v div 256 ^ w) mod 256) # big_endian w v"
    unfolding big_endian_def
    by (simp add: upt_conv_Cons map_Suc_upt [symmetric] del: upt_Suc)
  with Suc show ?case by (simp only: le_bytes_snoc rev_append) simp
qed

lemma big_endian_value_rev: "big_endian_value m = le_val (rev m)"
  unfolding big_endian_value_def
  by (induction m rule: rev_induct) simp_all


section \<open>C conversions and byte order\<close>

lemma pow256: "(256::int) ^ w = 2 ^ (8 * w)"
  by (simp add: power_mult)

lemma le_val_le_bytes_unsigned: "le_val (le_bytes w v) = to_unsigned w v"
  by (simp add: le_val_le_bytes to_unsigned_def pow256)

lemma to_unsigned_range: "0 \<le> to_unsigned w v" "to_unsigned w v < 2 ^ (8 * w)"
  by (simp_all add: to_unsigned_def)

lemma to_unsigned_id: "0 \<le> v \<Longrightarrow> v < 2 ^ (8 * w) \<Longrightarrow> to_unsigned w v = v"
  by (simp add: to_unsigned_def)

lemma to_unsigned_to_signed: "to_unsigned w (to_signed w v) = to_unsigned w v"
proof -
  have "((v + 2 ^ (8 * w - 1)) mod 2 ^ (8 * w) - 2 ^ (8 * w - 1)) mod 2 ^ (8 * w)
        = (v + 2 ^ (8 * w - 1) - 2 ^ (8 * w - 1)) mod 2 ^ (8 * w)"
    by (rule mod_diff_left_eq)
  then show ?thesis by (simp add: to_unsigned_def to_signed_def)
qed

lemma to_signed_to_unsigned: "to_signed w (to_unsigned w v) = to_signed w v"
proof -
  have "(v mod 2 ^ (8 * w) + 2 ^ (8 * w - 1)) mod 2 ^ (8 * w)
        = (v + 2 ^ (8 * w - 1)) mod 2 ^ (8 * w)"
    by (rule mod_add_left_eq)
  then show ?thesis by (simp add: to_unsigned_def to_signed_def)
qed

lemma to_signed_id:
  assumes "0 < w" "- (2 ^ (8 * w - 1)) \<le> v" "v < 2 ^ (8 * w - 1)"
  shows "to_signed w v = v"
proof -
  have "8 * w = Suc (8 * w - 1)" using assms(1) by simp
  then have "(2::int) ^ (8 * w) = 2 * 2 ^ (8 * w - 1)" by (metis power_Suc)
  then have "0 \<le> v + 2 ^ (8 * w - 1)" "v + 2 ^ (8 * w - 1) < 2 ^ (8 * w)"
    using assms(2,3) by simp_all
  then have "(v + 2 ^ (8 * w - 1)) mod 2 ^ (8 * w) = v + 2 ^ (8 * w - 1)" by simp
  then show ?thesis by (simp add: to_signed_def)
qed

lemma le_bytes_to_unsigned: "le_bytes w (to_unsigned w v) = le_bytes w v"
  using le_bytes_mod [of w v] by (simp add: to_unsigned_def pow256)

lemma le_bytes_to_signed: "le_bytes w (to_signed w v) = le_bytes w v"
  by (metis le_bytes_to_unsigned to_unsigned_to_signed)

lemma cast_to_signed: "cast p T (to_signed (sizeof p T) v) = cast p T v"
  by (simp add: cast_def to_unsigned_to_signed)
    (simp add: to_signed_def)

lemma cast_to_unsigned: "cast p T (to_unsigned (sizeof p T) v) = cast p T v"
  by (simp add: cast_def to_signed_to_unsigned)
    (simp add: to_unsigned_def)

lemma cast_representable:
  assumes "0 < sizeof p T" "representable p T v"
  shows "cast p T v = v"
  using assms by (auto simp: cast_def representable_def to_signed_id to_unsigned_id)

lemma load_object_bytes: "load_unsigned e (object_bytes e w v) = to_unsigned w v"
  by (cases e) (simp_all add: load_unsigned_def object_bytes_def le_val_le_bytes_unsigned)

lemma le_val_range: "0 \<le> le_val m" "le_val m < 2 ^ (8 * length m)"
  using le_val_nonneg [of m] le_val_less [of m] by (simp_all add: pow256)

text \<open>
  \<open>ntohl\<close> of a loaded \<open>int32_t\<close>, and \<open>ntohs\<close> of a loaded \<open>int16_t\<close>, read the
  bytes as big-endian on either host.
\<close>

lemma ntoh_load:
  "bswap (length m) (load_signed LittleEndian m) = le_val (rev m)"
  "to_unsigned (length m) (load_signed BigEndian m) = le_val (rev m)"
proof -
  show "bswap (length m) (load_signed LittleEndian m) = le_val (rev m)"
    by (simp add: bswap_def load_signed_def load_unsigned_def le_bytes_to_signed le_bytes_le_val)
  have "to_unsigned (length (rev m)) (le_val (rev m)) = le_val (rev m)"
    by (rule to_unsigned_id) (rule le_val_range)+
  then show "to_unsigned (length m) (load_signed BigEndian m) = le_val (rev m)"
    by (simp add: load_signed_def load_unsigned_def to_unsigned_to_signed)
qed

lemma ntohl_load: "length m = 4 \<Longrightarrow> ntohl e (load_signed e m) = big_endian_value m"
  using ntoh_load [of m] by (cases e) (simp_all add: ntohl_def htonl_def big_endian_value_rev)

lemma ntohs_load: "length m = 2 \<Longrightarrow> ntohs e (load_signed e m) = big_endian_value m"
  using ntoh_load [of m] by (cases e) (simp_all add: ntohs_def htons_def big_endian_value_rev)

lemma object_bytes_htonl: "object_bytes e 4 (htonl e t) = big_endian 4 t"
proof (cases e)
  case LittleEndian
  have "le_bytes (length (rev (le_bytes 4 t))) (le_val (rev (le_bytes 4 t))) = rev (le_bytes 4 t)"
    by (rule le_bytes_le_val)
  then show ?thesis using LittleEndian
    by (simp add: object_bytes_def htonl_def bswap_def big_endian_rev_le_bytes)
next
  case BigEndian
  then show ?thesis
    by (simp add: object_bytes_def htonl_def big_endian_rev_le_bytes le_bytes_to_unsigned)
qed

lemma object_bytes_htons_le: "take 2 (object_bytes LittleEndian 4 (htons LittleEndian t)) = big_endian 2 t"
proof -
  have "le_bytes (length (rev (le_bytes 2 t))) (le_val (rev (le_bytes 2 t))) = rev (le_bytes 2 t)"
    by (rule le_bytes_le_val)
  moreover have "take 2 (le_bytes (2 + 2) x) = le_bytes 2 x" for x
    by (rule take_le_bytes)
  ultimately show ?thesis
    by (simp add: object_bytes_def htons_def bswap_def big_endian_rev_le_bytes)
qed

lemma le_bytes_zero: "le_bytes k 0 = replicate k (CHR 0x00)"
  by (induction k) (simp_all add: char_of_def)

lemma le_bytes_high: "le_bytes (k + j) v = le_bytes k v @ le_bytes j (v div 256 ^ k)"
proof (induction k arbitrary: v)
  case 0
  show ?case by simp
next
  case (Suc k)
  have "v div 256 div 256 ^ k = v div (256 * 256 ^ k)"
    by (simp add: zdiv_zmult2_eq)
  with Suc [of "v div 256"] show ?case by simp
qed

lemma object_bytes_htons_be:
  "take 2 (object_bytes BigEndian 4 (htons BigEndian t)) = [CHR 0x00, CHR 0x00]"
proof -
  define x where "x = to_unsigned 2 t"
  have "0 \<le> x" "x < 65536" using to_unsigned_range [of 2 t] by (simp_all add: x_def)
  then have d: "x div 256 ^ 2 = 0" by simp
  have z: "le_bytes 2 0 = [CHR 0x00, CHR 0x00]"
    by (simp add: le_bytes_zero numeral_2_eq_2)
  have "le_bytes (2 + 2) x = le_bytes 2 x @ le_bytes 2 (x div 256 ^ 2)"
    by (rule le_bytes_high)
  then have "le_bytes 4 x = le_bytes 2 x @ [CHR 0x00, CHR 0x00]"
    by (simp only: d z) simp
  then show ?thesis
    by (simp add: object_bytes_def htons_def x_def)
qed


section \<open>What the scalar serializer writes and the deserializer reads\<close>

lemma get_append: "length m = n \<Longrightarrow> get (m @ rest) n = Inr (m, rest)"
  by (simp add: get_def used_def)

lemma length_object_bytes [simp]: "length (object_bytes e w v) = w"
  by (cases e) (simp_all add: object_bytes_def)

lemma length_big_endian [simp]: "length (big_endian w v) = w"
  by (simp add: big_endian_def)

lemma big_endian_value_big_endian: "big_endian_value (big_endian w v) = to_unsigned w v"
  by (simp add: big_endian_value_rev big_endian_rev_le_bytes le_val_le_bytes_unsigned)

lemma serialize_scalar_8:
  "sizeof p T = 8 \<Longrightarrow>
   wv_serialize_scalar p T buf t = Inr (buf @ object_bytes (host_endian p) 8 t)"
  by (simp add: wv_serialize_scalar_def put_def)

lemma serialize_scalar_4:
  "sizeof p T = 4 \<Longrightarrow> wv_serialize_scalar p T buf t = Inr (buf @ big_endian 4 t)"
  by (simp add: wv_serialize_scalar_def put_def object_bytes_htonl)

lemma serialize_scalar_2_le:
  "sizeof p T = 2 \<Longrightarrow> host_endian p = LittleEndian \<Longrightarrow>
   wv_serialize_scalar p T buf t = Inr (buf @ big_endian 2 t)"
  by (simp add: wv_serialize_scalar_def put_def object_bytes_htons_le)

lemma serialize_scalar_2_be:
  "sizeof p T = 2 \<Longrightarrow> host_endian p = BigEndian \<Longrightarrow>
   wv_serialize_scalar p T buf t = Inr (buf @ [CHR 0x00, CHR 0x00])"
  by (simp add: wv_serialize_scalar_def put_def object_bytes_htons_be)

lemma object_bytes_1: "object_bytes e 1 t = big_endian 1 t"
  by (cases e) (simp_all add: object_bytes_def big_endian_rev_le_bytes)

lemma serialize_scalar_1:
  assumes "sizeof p T = 1"
  shows "wv_serialize_scalar p T buf t = Inr (buf @ big_endian 1 t)"
proof -
  from assms
  have "wv_serialize_scalar p T buf t = Inr (buf @ object_bytes (host_endian p) 1 t)"
    by (simp add: wv_serialize_scalar_def put_def)
  then show ?thesis by (simp only: object_bytes_1)
qed

lemma deserialize_scalar_8:
  assumes "sizeof p T = 8" "length m = 8"
  shows "wv_deserialize_scalar p T (m @ rest)
         = Inr (cast p T (load_unsigned (host_endian p) m), rest)"
proof -
  have "cast p T (to_signed (sizeof p T) (load_unsigned (host_endian p) m))
        = cast p T (load_unsigned (host_endian p) m)"
    by (rule cast_to_signed)
  then show ?thesis using assms
    by (simp add: wv_deserialize_scalar_def used_def get_append load_signed_def)
qed

lemma deserialize_scalar_4:
  assumes "sizeof p T = 4" "length m = 4"
  shows "wv_deserialize_scalar p T (m @ rest) = Inr (cast p T (big_endian_value m), rest)"
  using assms by (simp add: wv_deserialize_scalar_def used_def get_append ntohl_load)

lemma deserialize_scalar_2:
  assumes "sizeof p T = 2" "length m = 2"
  shows "wv_deserialize_scalar p T (m @ rest) = Inr (cast p T (big_endian_value m), rest)"
  using assms by (simp add: wv_deserialize_scalar_def used_def get_append ntohs_load)

lemma load_1: "length m = 1 \<Longrightarrow> load_unsigned e m = big_endian_value m"
  by (cases m; cases e) (simp_all add: load_unsigned_def big_endian_value_def)

lemma deserialize_scalar_1:
  assumes "sizeof p T = 1" "length m = 1"
  shows "wv_deserialize_scalar p T (m @ rest) = Inr (cast p T (big_endian_value m), rest)"
proof -
  have "cast p T (to_signed (sizeof p T) (load_unsigned (host_endian p) m))
        = cast p T (load_unsigned (host_endian p) m)"
    by (rule cast_to_signed)
  then show ?thesis using assms
    by (simp add: wv_deserialize_scalar_def used_def get_append load_signed_def load_1)
qed

lemma cast_unsigned_representable:
  assumes "0 < sizeof p T" "representable p T v"
  shows "cast p T (to_unsigned (sizeof p T) v) = v"
  using assms by (simp add: cast_to_unsigned cast_representable)

lemma scalar_roundtrip_rest:
  assumes w: "sizeof p T = 1 \<or> sizeof p T = 4 \<or> sizeof p T = 8
              \<or> (sizeof p T = 2 \<and> host_endian p = LittleEndian)"
    and r: "representable p T v"
  shows "\<exists>m. length m = sizeof p T
           \<and> (\<forall>buf. wv_serialize_scalar p T buf v = Inr (buf @ m))
           \<and> (\<forall>rest. wv_deserialize_scalar p T (m @ rest) = Inr (v, rest))"
proof -
  from w have pos: "0 < sizeof p T" by auto
  note c = cast_unsigned_representable [OF pos r]
  from w consider "sizeof p T = 1" | "sizeof p T = 4" | "sizeof p T = 8"
    | "sizeof p T = 2" "host_endian p = LittleEndian" by blast
  then show ?thesis
  proof cases
    case 1
    with c have "wv_deserialize_scalar p T (big_endian 1 v @ rest) = Inr (v, rest)" for rest
      by (simp add: deserialize_scalar_1 big_endian_value_big_endian)
    with 1 show ?thesis
      by (intro exI [of _ "big_endian 1 v"]) (simp add: serialize_scalar_1)
  next
    case 2
    with c have "wv_deserialize_scalar p T (big_endian 4 v @ rest) = Inr (v, rest)" for rest
      by (simp add: deserialize_scalar_4 big_endian_value_big_endian)
    with 2 show ?thesis
      by (intro exI [of _ "big_endian 4 v"]) (simp add: serialize_scalar_4)
  next
    case 3
    with c have "wv_deserialize_scalar p T (object_bytes (host_endian p) 8 v @ rest)
                 = Inr (v, rest)" for rest
      by (simp add: deserialize_scalar_8 load_object_bytes)
    with 3 show ?thesis
      by (intro exI [of _ "object_bytes (host_endian p) 8 v"]) (simp add: serialize_scalar_8)
  next
    case 4
    with c have "wv_deserialize_scalar p T (big_endian 2 v @ rest) = Inr (v, rest)" for rest
      by (simp add: deserialize_scalar_2 big_endian_value_big_endian)
    with 4 show ?thesis
      by (intro exI [of _ "big_endian 2 v"]) (simp add: serialize_scalar_2_le)
  qed
qed



section \<open>The wire format of scalars\<close>

text \<open>
  On every host the 4-byte and 1-byte branches write the big-endian representation
  (\<open>serialize_scalar_4\<close>, \<open>serialize_scalar_1\<close>), and so does the 2-byte branch
  on a little-endian host (\<open>serialize_scalar_2_le\<close>). The 8-byte branch writes the
  object as it lies in memory (\<open>serialize_scalar_8\<close>); the source marks the
  missing conversion with a FIXME.
\<close>

text \<open>
  C1. Every scalar of width 1, 2, 4 or 8 is to be written as exactly that many
  bytes in big-endian order and read back as big-endian. For an 8-byte scalar on a
  little-endian host this fails: \<open>long long\<close> 1 is written least significant byte
  first, which is not its big-endian representation, and the big-endian
  representation of 1 is read back as \<open>2 ^ 56\<close>.
\<close>

theorem serialize_scalar_long_long_host_order:
  "wv_serialize_scalar x86_64 TLongLong [] 1
     = Inr [CHR 0x01, CHR 0x00, CHR 0x00, CHR 0x00, CHR 0x00, CHR 0x00, CHR 0x00, CHR 0x00]
   \<and> big_endian 8 1
     = [CHR 0x00, CHR 0x00, CHR 0x00, CHR 0x00, CHR 0x00, CHR 0x00, CHR 0x00, CHR 0x01]
   \<and> wv_deserialize_scalar x86_64 TLongLong (big_endian 8 1)
     = Inr (72057594037927936, [])"
  by code_simp


section \<open>Round trip of scalars\<close>

text \<open>
  On a little-endian host every scalar type round-trips. On a big-endian host the
  types of width 1, 4 and 8 do (\<open>scalar_roundtrip_rest\<close>), the 2-byte types do
  not: the first two bytes of the \<open>int32_t\<close> holding \<open>htons(t)\<close> are its two
  high-order bytes there, which are zero (\<open>serialize_scalar_2_be\<close>).
\<close>

lemma scalar_roundtrip_little_endian:
  assumes "host_endian p = LittleEndian" "sizeof_long p = 4 \<or> sizeof_long p = 8"
    and "representable p T v"
  shows "\<exists>m. wv_serialize_scalar p T [] v = Inr m \<and> length m = sizeof p T
           \<and> wv_deserialize_scalar p T m = Inr (v, [])"
proof -
  from assms(1,2) have "sizeof p T = 1 \<or> sizeof p T = 4 \<or> sizeof p T = 8
              \<or> (sizeof p T = 2 \<and> host_endian p = LittleEndian)"
    by (cases T) auto
  from scalar_roundtrip_rest [OF this assms(3)] obtain m where
    "length m = sizeof p T"
    "\<And>buf. wv_serialize_scalar p T buf v = Inr (buf @ m)"
    "\<And>rest. wv_deserialize_scalar p T (m @ rest) = Inr (v, rest)"
    by blast
  from this(1) this(2) [of "[]"] this(3) [of "[]"] show ?thesis by simp
qed

text \<open>
  C2. Serializing a representable value of a scalar type and deserializing that
  type from the buffer is to return the value. On a big-endian host this fails for
  \<open>short\<close>: the value 1 is representable, it is written as two zero bytes, and
  those are read back as 0.
\<close>

theorem short_roundtrip_big_endian_host:
  "representable ppc32 TShort 1
   \<and> wv_serialize_scalar ppc32 TShort [] 1 = Inr [CHR 0x00, CHR 0x00]
   \<and> wv_deserialize_scalar ppc32 TShort [CHR 0x00, CHR 0x00] = Inr (0, [])"
  by code_simp


section \<open>Underflow of a scalar\<close>

text \<open>
  C3. For a scalar type \<open>T\<close> of width \<open>w\<close> and a buffer holding fewer than \<open>w\<close>
  unread bytes, deserializing \<open>T\<close> returns the placeholder 0 and consumes nothing:
  the buffer after the call is the buffer before it, so the number of unread bytes is
  unchanged.
\<close>

theorem deserialize_scalar_underflow:
  assumes "used buf < sizeof p T"
  shows "\<exists>buf'. wv_deserialize_scalar p T buf = Inr (0, buf') \<and> buf' = buf
           \<and> used buf' = used buf"
  using assms by (simp add: wv_deserialize_scalar_def)

theorem deserialize_scalar_underflow_witness:
  "used [CHR 0x01, CHR 0x02, CHR 0x03] < sizeof x86_64 TInt
   \<and> wv_deserialize_scalar x86_64 TInt [CHR 0x01, CHR 0x02, CHR 0x03]
       = Inr (0, [CHR 0x01, CHR 0x02, CHR 0x03])"
proof -
  have h: "used [CHR 0x01, CHR 0x02, CHR 0x03] < sizeof x86_64 TInt"
    by (simp add: used_def)
  from deserialize_scalar_underflow [OF h] h show ?thesis by simp
qed


section \<open>The escape encoder\<close>

lemma backslash_encode_concat:
  "backslash_encode st cs
   = (st, concat (map (\<lambda>c. if must_escape c then [backslash, mnemonic c] else [c]) cs))"
  by (induction cs) simp_all

lemma stream_writes_encode:
  "stream_writes backslash_encode backslash_encode_flush st chunks
   = map (\<lambda>chunk. snd (backslash_encode () chunk)) chunks"
  by (induction chunks arbitrary: st)
    (simp_all add: backslash_encode_concat backslash_encode_flush_def)

lemma encode_test_chunks:
  "stream_writes backslash_encode backslash_encode_flush () test_plain = test_escaped"
  by (simp add: test_plain_def test_escaped_def backslash_encode_flush_def must_escape_def
      mnemonic_def newline_def backspace_def backslash_def)

text \<open>
  C4. Written one at a time through the encoder, the five chunks of the test give
  the five escaped chunks. A byte is escaped, as a backslash and its mnemonic,
  exactly when it is a newline, a backspace or a backslash, and is copied otherwise;
  the output for a chunk is the concatenation of the outputs for its bytes; and the
  output for each chunk of any sequence of writes is the output for that chunk alone,
  whatever was written before.
\<close>

theorem escape_encoder_chunks:
  "stream_writes backslash_encode backslash_encode_flush () test_plain = test_escaped
   \<and> snd (backslash_encode st [c])
       = (if c = newline \<or> c = backspace \<or> c = backslash
          then [backslash, mnemonic c] else [c])
   \<and> snd (backslash_encode st cs) = concat (map (\<lambda>c. snd (backslash_encode () [c])) cs)
   \<and> stream_writes backslash_encode backslash_encode_flush st chunks
       = map (\<lambda>chunk. snd (backslash_encode () chunk)) chunks"
proof (intro conjI)
  show "stream_writes backslash_encode backslash_encode_flush () test_plain = test_escaped"
    by (rule encode_test_chunks)
  show "snd (backslash_encode st [c])
        = (if c = newline \<or> c = backspace \<or> c = backslash
           then [backslash, mnemonic c] else [c])"
    by (simp add: must_escape_def)
  show "snd (backslash_encode st cs) = concat (map (\<lambda>c. snd (backslash_encode () [c])) cs)"
    by (simp add: backslash_encode_concat)
  show "stream_writes backslash_encode backslash_encode_flush st chunks
        = map (\<lambda>chunk. snd (backslash_encode () chunk)) chunks"
    by (rule stream_writes_encode)
qed


section \<open>The escape decoder\<close>

lemma decode_test_chunks:
  "stream_writes backslash_decode backslash_decode_flush PASSTHROUGH test_escaped = test_plain"
  by (simp add: test_plain_def test_escaped_def unescape_def newline_def backspace_def
      backslash_def)

lemma backslash_decode_append:
  "backslash_decode st (xs @ ys)
   = (let (st1, out1) = backslash_decode st xs; (st2, out2) = backslash_decode st1 ys
      in (st2, out1 @ out2))"
  by (induction xs arbitrary: st) (simp_all split: prod.splits)

text \<open>
  Decoding undoes encoding, also when more input follows; with
  \<open>backslash_decode_append\<close> the input may be cut into chunks anywhere.
\<close>

lemma decode_encode:
  "backslash_decode PASSTHROUGH (snd (backslash_encode u xs) @ ys)
   = (let (st, out) = backslash_decode PASSTHROUGH ys in (st, xs @ out))"
  by (induction xs)
    (auto simp: backslash_encode_concat must_escape_def mnemonic_def unescape_def
      newline_def backspace_def backslash_def split: prod.splits)

text \<open>
  C5. Written one at a time through the decoder, the five escaped chunks give the
  five original chunks. A backslash that ends a call is retained and nothing is
  emitted for it, unless it completes a pair begun by a retained backslash; the next
  call resolves a retained backslash with its first byte; two backslashes arriving
  as a chunk of their own decode to one backslash; and \<open>flush\<close> with a retained
  backslash emits it literally. The state of the decoder is one of two values,
  whether a backslash is retained or not, and nothing else.
\<close>

theorem escape_decoder_chunks:
  "stream_writes backslash_decode backslash_decode_flush PASSTHROUGH test_escaped = test_plain
   \<and> backslash_decode st (xs @ [backslash])
       = (case backslash_decode st xs of
            (PASSTHROUGH, out) \<Rightarrow> (PENDING_ESCAPE, out)
          | (PENDING_ESCAPE, out) \<Rightarrow> (PASSTHROUGH, out @ [backslash]))
   \<and> backslash_decode PENDING_ESCAPE (c # cs)
       = (let (st', out) = backslash_decode PASSTHROUGH cs in (st', unescape c @ out))
   \<and> backslash_decode PASSTHROUGH [backslash, backslash] = (PASSTHROUGH, [backslash])
   \<and> backslash_decode_flush PENDING_ESCAPE = (PASSTHROUGH, [backslash])"
proof (intro conjI)
  show "stream_writes backslash_decode backslash_decode_flush PASSTHROUGH test_escaped
        = test_plain"
    by (rule decode_test_chunks)
  show "backslash_decode st (xs @ [backslash])
        = (case backslash_decode st xs of
             (PASSTHROUGH, out) \<Rightarrow> (PENDING_ESCAPE, out)
           | (PENDING_ESCAPE, out) \<Rightarrow> (PASSTHROUGH, out @ [backslash]))"
    by (simp add: backslash_decode_append unescape_def backslash_def
        split: prod.splits decoder_state.splits)
  show "backslash_decode PENDING_ESCAPE (c # cs)
        = (let (st', out) = backslash_decode PASSTHROUGH cs in (st', unescape c @ out))"
    by simp
  show "backslash_decode PASSTHROUGH [backslash, backslash] = (PASSTHROUGH, [backslash])"
    by (simp add: unescape_def backslash_def)
  show "backslash_decode_flush PENDING_ESCAPE = (PASSTHROUGH, [backslash])"
    by simp
qed


section \<open>Text\<close>

lemma serialize_text: "wv_serialize_WvString buf s = buf @ cstr s @ [CHR 0x00]"
  by (cases s) (simp_all add: wv_serialize_WvString_def isnull_def put_def putstr_def)

lemma deserialize_text:
  assumes "CHR 0x00 \<notin> set t"
  shows "wv_deserialize_WvString (t @ CHR 0x00 # rest) = (Some t, rest)"
proof -
  have "takeWhile (\<lambda>c. c \<noteq> CHR 0x00) (t @ CHR 0x00 # rest) = t"
    using assms by (auto simp: takeWhile_tail)
  moreover have "dropWhile (\<lambda>c. c \<noteq> CHR 0x00) (t @ CHR 0x00 # rest) = CHR 0x00 # rest"
    using assms by (auto simp: dropWhile_append3)
  ultimately show ?thesis by (simp add: wv_deserialize_WvString_def)
qed

text \<open>
  A null text is written as the empty text is, and is read back as the empty text.
\<close>

lemma null_text_comes_back_empty:
  "wv_deserialize_WvString (wv_serialize_WvString [] None) = (Some [], [])"
  using deserialize_text [of "[]" "[]"] by (simp add: serialize_text)

text \<open>
  C6. Serializing a text appends its content bytes and then one zero byte; as the
  content has no zero byte, the appended bytes hold exactly one. A null text and an
  empty text both append the zero byte alone.
\<close>

theorem serialize_text_wire:
  assumes "wf_text s"
  shows "wv_serialize_WvString buf s = buf @ cstr s @ [CHR 0x00]
       \<and> count_list (cstr s @ [CHR 0x00]) (CHR 0x00) = 1
       \<and> wv_serialize_WvString buf None = buf @ [CHR 0x00]
       \<and> wv_serialize_WvString buf (Some []) = buf @ [CHR 0x00]"
  using assms by (simp add: serialize_text wf_text_def)

theorem serialize_text_wire_witness:
  "wf_text (Some ''abc'')
   \<and> wv_serialize_WvString ''xy'' (Some ''abc'') = ''xyabc'' @ [CHR 0x00]
   \<and> wv_serialize_WvString ''xy'' None = wv_serialize_WvString ''xy'' (Some [])"
proof -
  have h: "wf_text (Some ''abc'')" by (simp add: wf_text_def)
  from serialize_text_wire [OF h, of "''xy''"] h show ?thesis by simp
qed

text \<open>
  C7. For a text without a zero byte, serializing it into an empty buffer and
  deserializing a text from that buffer returns it and leaves the buffer empty; so
  for the empty text.
\<close>

theorem text_roundtrip:
  assumes "CHR 0x00 \<notin> set t"
  shows "wv_deserialize_WvString (wv_serialize_WvString [] (Some t)) = (Some t, [])
       \<and> wv_deserialize_WvString (wv_serialize_WvString [] (Some [])) = (Some [], [])"
  using deserialize_text [OF assms, of "[]"] deserialize_text [of "[]" "[]"]
  by (simp add: serialize_text)

theorem text_roundtrip_witness:
  "CHR 0x00 \<notin> set ''hello''
   \<and> wv_deserialize_WvString (wv_serialize_WvString [] (Some ''hello''))
       = (Some ''hello'', [])"
proof -
  have h: "CHR 0x00 \<notin> set ''hello''" by simp
  from text_roundtrip [OF h] h show ?thesis by simp
qed


section \<open>Lists and nested buffers\<close>

lemma platform_ok_size_type:
  assumes "platform_ok p"
  shows "sizeof p (size_type p) = 4 \<or> sizeof p (size_type p) = 8"
    and "\<not> is_signed p (size_type p)"
  using assms by (auto simp: platform_ok_def)

text \<open>A count that fits \<open>size_t\<close> is written as \<open>sizeof(size_t)\<close> bytes and read back.\<close>

lemma size_prefix:
  assumes ok: "platform_ok p" and n: "int n < 2 ^ (8 * sizeof p (size_type p))"
  shows "\<exists>pre. length pre = sizeof p (size_type p)
           \<and> (\<forall>buf. wv_serialize_scalar p (size_type p) buf (int n) = Inr (buf @ pre))
           \<and> (\<forall>rest. wv_deserialize_scalar p (size_type p) (pre @ rest) = Inr (int n, rest))"
proof (rule scalar_roundtrip_rest)
  from platform_ok_size_type(1) [OF ok]
  show "sizeof p (size_type p) = 1 \<or> sizeof p (size_type p) = 4 \<or> sizeof p (size_type p) = 8
        \<or> (sizeof p (size_type p) = 2 \<and> host_endian p = LittleEndian)"
    by blast
  from platform_ok_size_type(2) [OF ok] n
  show "representable p (size_type p) (int n)"
    by (simp add: representable_def)
qed

lemma serialize_elements_concat:
  assumes "\<forall>x\<in>set xs. \<forall>b. ser b x = Inr (b @ enc x)"
  shows "serialize_elements ser buf xs = Inr (buf @ concat (map enc xs))"
  using assms by (induction xs arbitrary: buf) simp_all

lemma deserialize_loop_concat:
  assumes "\<forall>x\<in>set xs. \<forall>rest. deser (enc x @ rest) = Inr (x, rest)"
  shows "deserialize_loop deser count (count + length xs) acc (concat (map enc xs) @ rest)
         = Inr (acc @ xs, rest)"
  using assms
proof (induction xs arbitrary: count acc)
  case Nil
  show ?case by (subst deserialize_loop.simps) simp
next
  case (Cons x xs)
  from Cons.prems have d: "deser (enc x @ concat (map enc xs) @ rest)
                           = Inr (x, concat (map enc xs) @ rest)"
    by simp
  from Cons.prems have "\<forall>y\<in>set xs. \<forall>rest. deser (enc y @ rest) = Inr (y, rest)" by simp
  from Cons.IH [OF this, of "Suc count" "acc @ [x]"]
  have "deserialize_loop deser (Suc count) (count + length (x # xs)) (acc @ [x])
          (concat (map enc xs) @ rest) = Inr (acc @ x # xs, rest)"
    by simp
  with d show ?case by (subst deserialize_loop.simps) simp
qed

lemma deserialize_loop_zero: "deserialize_loop deser 0 0 [] buf = Inr ([], buf)"
  by (subst deserialize_loop.simps) simp

text \<open>An empty list and an empty nested buffer are the count 0 alone on the wire.\<close>

lemma empty_list_roundtrip:
  assumes ok: "platform_ok p"
  shows "\<exists>wire. wv_serialize_WvList p ser [] [] = Inr wire
           \<and> WvDeserialize_WvList_go p deser wire = Inr ([], [])"
proof -
  from size_prefix [OF ok, of 0] obtain pre where
    s: "\<And>b. wv_serialize_scalar p (size_type p) b 0 = Inr (b @ pre)" and
    d: "\<And>r. wv_deserialize_scalar p (size_type p) (pre @ r) = Inr (0, r)"
    by auto
  have "wv_serialize_WvList p ser [] [] = Inr pre"
    by (simp add: wv_serialize_WvList_def s)
  moreover have "WvDeserialize_WvList_go p deser pre = Inr ([], [])"
    using d [of "[]"] by (simp add: WvDeserialize_WvList_go_def deserialize_loop_zero)
  ultimately show ?thesis by blast
qed

lemma empty_buffer_roundtrip:
  assumes ok: "platform_ok p"
  shows "\<exists>wire. wv_serialize_WvBuf p [] [] = Inr (wire, [])
           \<and> WvDeserialize_WvBuf_go p wire = Inr ([], [])"
proof -
  from size_prefix [OF ok, of 0] obtain pre where
    s: "\<And>b. wv_serialize_scalar p (size_type p) b 0 = Inr (b @ pre)" and
    d: "\<And>r. wv_deserialize_scalar p (size_type p) (pre @ r) = Inr (0, r)"
    by auto
  have "wv_serialize_WvBuf p [] [] = Inr (pre, [])"
    by (simp add: wv_serialize_WvBuf_def used_def s peek_def put_def)
  moreover have "WvDeserialize_WvBuf_go p pre = Inr ([], [])"
    using d [of "[]"] by (simp add: WvDeserialize_WvBuf_go_def merge_def used_def)
  ultimately show ?thesis by blast
qed

lemma x86_64_ok: "platform_ok x86_64"
  by (simp add: platform_ok_def x86_64_def)

lemma ppc32_ok: "platform_ok ppc32"
  by (simp add: platform_ok_def ppc32_def)

text \<open>
  Where the codec of the element type round-trips, so does the list. Let the element
  serializer append an encoding \<open>enc x\<close> of each element, and let the element
  deserializer read such an encoding back from the front of a buffer. Serializing a
  list of \<open>N\<close> elements, \<open>N\<close> fitting \<open>size_t\<close>, appends the count \<open>N\<close> as a
  \<open>size_t\<close> scalar and then the encodings of the elements in order; deserializing
  a list from these bytes returns the elements, equal in order and value, and
  consumes exactly these bytes. With no element the result is the empty list, not an
  error. Lists are values here: every result is a new list.
\<close>

lemma list_roundtrip_codec:
  assumes ok: "platform_ok p"
    and n: "int (length xs) < 2 ^ (8 * sizeof p (size_type p))"
    and ser: "\<forall>x\<in>set xs. \<forall>b. ser b x = Inr (b @ enc x)"
    and deser: "\<forall>x\<in>set xs. \<forall>rest. deser (enc x @ rest) = Inr (x, rest)"
  shows "(\<exists>pre. wv_serialize_scalar p (size_type p) [] (int (length xs)) = Inr pre
            \<and> length pre = sizeof p (size_type p)
            \<and> wv_deserialize_scalar p (size_type p) pre = Inr (int (length xs), [])
            \<and> wv_serialize_WvList p ser buf xs = Inr (buf @ pre @ concat (map enc xs))
            \<and> WvDeserialize_WvList_go p deser (pre @ concat (map enc xs) @ rest)
                = Inr (xs, rest))
       \<and> (\<exists>wire. wv_serialize_WvList p ser [] [] = Inr wire
            \<and> WvDeserialize_WvList_go p deser wire = Inr ([], []))"
proof
  from size_prefix [OF ok n] obtain pre where
    len: "length pre = sizeof p (size_type p)" and
    s: "\<And>b. wv_serialize_scalar p (size_type p) b (int (length xs)) = Inr (b @ pre)" and
    d: "\<And>r. wv_deserialize_scalar p (size_type p) (pre @ r) = Inr (int (length xs), r)"
    by blast
  have "wv_serialize_WvList p ser buf xs = Inr (buf @ pre @ concat (map enc xs))"
    by (simp add: wv_serialize_WvList_def s serialize_elements_concat [OF ser])
  moreover have "WvDeserialize_WvList_go p deser (pre @ concat (map enc xs) @ rest)
                 = Inr (xs, rest)"
    using deserialize_loop_concat [OF deser, of 0 "[]" rest]
    by (simp add: WvDeserialize_WvList_go_def d)
  moreover from s [of "[]"]
  have "wv_serialize_scalar p (size_type p) [] (int (length xs)) = Inr pre" by simp
  moreover from d [of "[]"]
  have "wv_deserialize_scalar p (size_type p) pre = Inr (int (length xs), [])" by simp
  ultimately show "\<exists>pre. wv_serialize_scalar p (size_type p) [] (int (length xs)) = Inr pre
            \<and> length pre = sizeof p (size_type p)
            \<and> wv_deserialize_scalar p (size_type p) pre = Inr (int (length xs), [])
            \<and> wv_serialize_WvList p ser buf xs = Inr (buf @ pre @ concat (map enc xs))
            \<and> WvDeserialize_WvList_go p deser (pre @ concat (map enc xs) @ rest)
                = Inr (xs, rest)"
    using len by blast
  show "\<exists>wire. wv_serialize_WvList p ser [] [] = Inr wire
          \<and> WvDeserialize_WvList_go p deser wire = Inr ([], [])"
    by (rule empty_list_roundtrip [OF ok])
qed

lemma list_roundtrip_codec_int:
  "wv_serialize_WvList x86_64 (wv_serialize_scalar x86_64 TInt) [] [1, -2, 3]
     = Inr ([CHR 0x03, CHR 0x00, CHR 0x00, CHR 0x00, CHR 0x00, CHR 0x00, CHR 0x00, CHR 0x00]
            @ [CHR 0x00, CHR 0x00, CHR 0x00, CHR 0x01]
            @ [CHR 0xFF, CHR 0xFF, CHR 0xFF, CHR 0xFE]
            @ [CHR 0x00, CHR 0x00, CHR 0x00, CHR 0x03])
   \<and> WvDeserialize_WvList_go x86_64 (wv_deserialize_scalar x86_64 TInt)
       ([CHR 0x03, CHR 0x00, CHR 0x00, CHR 0x00, CHR 0x00, CHR 0x00, CHR 0x00, CHR 0x00]
            @ [CHR 0x00, CHR 0x00, CHR 0x00, CHR 0x01]
            @ [CHR 0xFF, CHR 0xFF, CHR 0xFF, CHR 0xFE]
            @ [CHR 0x00, CHR 0x00, CHR 0x00, CHR 0x03])
     = Inr ([1, -2, 3], [])"
proof -
  have sz: "sizeof x86_64 TInt = 4" by simp
  have n: "int (length [1, -2, 3 :: int]) < 2 ^ (8 * sizeof x86_64 (size_type x86_64))"
    by (simp add: x86_64_def)
  have ser: "\<forall>x\<in>set [1, -2, 3 :: int]. \<forall>b.
               wv_serialize_scalar x86_64 TInt b x = Inr (b @ big_endian 4 x)"
    by (simp add: serialize_scalar_4 [OF sz])
  have r: "\<forall>x\<in>set [1, -2, 3 :: int]. representable x86_64 TInt x"
    by (simp add: representable_def)
  have deser: "\<forall>x\<in>set [1, -2, 3 :: int]. \<forall>rest.
                 wv_deserialize_scalar x86_64 TInt (big_endian 4 x @ rest) = Inr (x, rest)"
  proof (intro ballI allI)
    fix x :: int and rest
    assume "x \<in> set [1, -2, 3]"
    with r have "representable x86_64 TInt x" by blast
    then have "cast x86_64 TInt (to_unsigned (sizeof x86_64 TInt) x) = x"
      by (intro cast_unsigned_representable) simp_all
    then show "wv_deserialize_scalar x86_64 TInt (big_endian 4 x @ rest) = Inr (x, rest)"
      by (simp add: deserialize_scalar_4 [OF sz] big_endian_value_big_endian)
  qed
  have pre: "wv_serialize_scalar x86_64 (size_type x86_64) [] (int (length [1, -2, 3 :: int]))
             = Inr [CHR 0x03, CHR 0x00, CHR 0x00, CHR 0x00, CHR 0x00, CHR 0x00, CHR 0x00,
                    CHR 0x00]"
    by code_simp
  have be: "concat (map (big_endian 4) [1, -2, 3])
            = [CHR 0x00, CHR 0x00, CHR 0x00, CHR 0x01]
            @ [CHR 0xFF, CHR 0xFF, CHR 0xFF, CHR 0xFE]
            @ [CHR 0x00, CHR 0x00, CHR 0x00, CHR 0x03]"
    by code_simp
  from list_roundtrip_codec [OF x86_64_ok n ser deser, of "[]" "[]"] pre be
  show ?thesis by auto
qed

text \<open>
  C8. Serializing a list of \<open>N\<close> elements is to write the count \<open>N\<close> and the
  elements in order, and deserializing is to return \<open>N\<close> elements equal in order
  and value to the originals. For a list of \<open>short\<close> on a big-endian host this
  fails: the list 1, 2, 3 is written as the count 3 and three pairs of zero bytes,
  and the list read back is 0, 0, 0. The count and the order are kept; the values
  are lost in the 2-byte branch of the scalar serializer.
\<close>

theorem list_of_short_roundtrip_big_endian_host:
  "representable ppc32 TShort 1 \<and> representable ppc32 TShort 2
   \<and> representable ppc32 TShort 3
   \<and> wv_serialize_WvList ppc32 (wv_serialize_scalar ppc32 TShort) [] [1, 2, 3]
       = Inr ([CHR 0x00, CHR 0x00, CHR 0x00, CHR 0x03]
              @ [CHR 0x00, CHR 0x00] @ [CHR 0x00, CHR 0x00] @ [CHR 0x00, CHR 0x00])
   \<and> WvDeserialize_WvList_go ppc32 (wv_deserialize_scalar ppc32 TShort)
         ([CHR 0x00, CHR 0x00, CHR 0x00, CHR 0x03]
          @ [CHR 0x00, CHR 0x00] @ [CHR 0x00, CHR 0x00] @ [CHR 0x00, CHR 0x00])
       = Inr ([0, 0, 0], [])"
  by code_simp

text \<open>
  C9. Serializing a nested buffer whose length fits \<open>size_t\<close> appends that length
  as a \<open>size_t\<close> scalar and then the unread bytes of the nested buffer, and leaves
  the nested buffer as it was; deserializing a buffer from these bytes returns a
  buffer holding the same bytes and consumes exactly the prefix and the bytes.
  Buffers are values here: the result is a new buffer.
\<close>

theorem buffer_roundtrip:
  assumes ok: "platform_ok p"
    and n: "int (used inbuf) < 2 ^ (8 * sizeof p (size_type p))"
  shows "\<exists>pre. wv_serialize_scalar p (size_type p) [] (int (used inbuf)) = Inr pre
           \<and> length pre = sizeof p (size_type p)
           \<and> wv_deserialize_scalar p (size_type p) pre = Inr (int (used inbuf), [])
           \<and> wv_serialize_WvBuf p buf inbuf = Inr (buf @ pre @ inbuf, inbuf)
           \<and> WvDeserialize_WvBuf_go p (pre @ inbuf @ rest) = Inr (inbuf, rest)"
proof -
  from n have "int (length inbuf) < 2 ^ (8 * sizeof p (size_type p))" by (simp add: used_def)
  from size_prefix [OF ok this] obtain pre where
    len: "length pre = sizeof p (size_type p)" and
    s: "\<And>b. wv_serialize_scalar p (size_type p) b (int (length inbuf)) = Inr (b @ pre)" and
    d: "\<And>r. wv_deserialize_scalar p (size_type p) (pre @ r) = Inr (int (length inbuf), r)"
    by blast
  have "wv_serialize_WvBuf p buf inbuf = Inr (buf @ pre @ inbuf, inbuf)"
    by (simp add: wv_serialize_WvBuf_def used_def s peek_def put_def)
  moreover have "WvDeserialize_WvBuf_go p (pre @ inbuf @ rest) = Inr (inbuf, rest)"
    by (simp add: WvDeserialize_WvBuf_go_def d merge_def used_def)
  moreover from s [of "[]"]
  have "wv_serialize_scalar p (size_type p) [] (int (used inbuf)) = Inr pre"
    by (simp add: used_def)
  moreover from d [of "[]"]
  have "wv_deserialize_scalar p (size_type p) pre = Inr (int (used inbuf), [])"
    by (simp add: used_def)
  ultimately show ?thesis using len by blast
qed

theorem buffer_roundtrip_witness:
  "wv_serialize_WvBuf ppc32 ''ab'' ''xyz''
     = Inr (''ab'' @ [CHR 0x00, CHR 0x00, CHR 0x00, CHR 0x03] @ ''xyz'', ''xyz'')
   \<and> WvDeserialize_WvBuf_go ppc32
       ([CHR 0x00, CHR 0x00, CHR 0x00, CHR 0x03] @ ''xyz'' @ ''rest'')
     = Inr (''xyz'', ''rest'')"
proof -
  have n: "int (used ''xyz'') < 2 ^ (8 * sizeof ppc32 (size_type ppc32))"
    by (simp add: ppc32_def used_def)
  have pre: "wv_serialize_scalar ppc32 (size_type ppc32) [] (int (used ''xyz''))
             = Inr [CHR 0x00, CHR 0x00, CHR 0x00, CHR 0x03]"
    by code_simp
  from buffer_roundtrip [OF ppc32_ok n, of "''ab''" "''rest''"] pre
  show ?thesis by auto
qed

text \<open>
  C10. When the buffer holds fewer unread bytes than a \<open>size_t\<close> has, the length or
  count prefix deserializes to 0 and consumes nothing, and the deserializers of a
  nested buffer and of a list return an empty buffer and an empty list, not an
  error. Deserializing the serialization of an empty buffer or of an empty list
  returns the same values.
\<close>

theorem composite_underflow:
  assumes ok: "platform_ok p" and u: "used buf < sizeof p (size_type p)"
  shows "wv_deserialize_scalar p (size_type p) buf = Inr (0, buf)
       \<and> WvDeserialize_WvBuf_go p buf = Inr ([], buf)
       \<and> WvDeserialize_WvList_go p deser buf = Inr ([], buf)
       \<and> (\<exists>wire. wv_serialize_WvBuf p [] [] = Inr (wire, [])
            \<and> WvDeserialize_WvBuf_go p wire = Inr ([], []))
       \<and> (\<exists>wire. wv_serialize_WvList p ser [] [] = Inr wire
            \<and> WvDeserialize_WvList_go p deser wire = Inr ([], []))"
proof (intro conjI)
  from u show "wv_deserialize_scalar p (size_type p) buf = Inr (0, buf)"
    by (simp add: wv_deserialize_scalar_def)
  from u show "WvDeserialize_WvBuf_go p buf = Inr ([], buf)"
    by (simp add: WvDeserialize_WvBuf_go_def wv_deserialize_scalar_def merge_def)
  from u show "WvDeserialize_WvList_go p deser buf = Inr ([], buf)"
    by (simp add: WvDeserialize_WvList_go_def wv_deserialize_scalar_def deserialize_loop_zero)
  show "\<exists>wire. wv_serialize_WvBuf p [] [] = Inr (wire, [])
          \<and> WvDeserialize_WvBuf_go p wire = Inr ([], [])"
    by (rule empty_buffer_roundtrip [OF ok])
  show "\<exists>wire. wv_serialize_WvList p ser [] [] = Inr wire
          \<and> WvDeserialize_WvList_go p deser wire = Inr ([], [])"
    by (rule empty_list_roundtrip [OF ok])
qed

theorem composite_underflow_witness:
  "used ''abc'' < sizeof x86_64 (size_type x86_64)
   \<and> WvDeserialize_WvBuf_go x86_64 ''abc'' = Inr ([], ''abc'')
   \<and> WvDeserialize_WvList_go x86_64 (wv_deserialize_scalar x86_64 TInt) ''abc''
       = Inr ([], ''abc'')"
proof -
  have h: "used ''abc'' < sizeof x86_64 (size_type x86_64)"
    by (simp add: used_def x86_64_def)
  from composite_underflow [OF x86_64_ok h, where deser = "wv_deserialize_scalar x86_64 TInt"
      and ser = "wv_serialize_scalar x86_64 TInt"] h
  show ?thesis by blast
qed

end
